theory Spec2Isabelle
  imports Main "HOL-Library.AList"
begin

section \<open>Levels (observer.go, \<open>type Level int\<close>)\<close>

text \<open>
  \<open>Level\<close> is a Go \<open>int\<close>; the code only compares levels, so the unbounded integers
  model it without loss. The constants are the \<open>iota\<close> block of the source.
\<close>

type_synonym Level = int

definition LevelNone :: Level where "LevelNone = 0"
definition LevelTrace :: Level where "LevelTrace = 1"
definition LevelDebug :: Level where "LevelDebug = 2"
definition LevelInfo :: Level where "LevelInfo = 3"
definition LevelWarn :: Level where "LevelWarn = 4"
definition LevelError :: Level where "LevelError = 5"
definition LevelFatal :: Level where "LevelFatal = 6"
definition LevelPanic :: Level where "LevelPanic = 7"

definition Level_String :: "Level \<Rightarrow> string" where
  "Level_String l =
     (if l = LevelTrace then ''trace''
      else if l = LevelDebug then ''debug''
      else if l = LevelInfo then ''info''
      else if l = LevelWarn then ''warn''
      else if l = LevelError then ''error''
      else if l = LevelFatal then ''fatal''
      else if l = LevelPanic then ''fatal''
      else if l = LevelNone then []
      else [])"

section \<open>Values, field maps and outcomes\<close>

text \<open>
  \<open>any\<close> stands for the dynamically typed values a field can hold. A value of Go's
  \<open>Fields\<close> (\<open>map[string]any\<close>) is a list of entries with one entry per key; the order of
  the list is the order in which a \<open>range\<close> loop visits the entries, which Go leaves
  open, so a statement about every such list covers every iteration order.
\<close>

datatype any = AnyNil | AnyBool bool | AnyInt int | AnyString string | AnyError string

type_synonym Fields = "(string \<times> any) list"

text \<open>
  A call either returns a value, panics, or ends the process (\<open>os.Exit\<close>); each outcome
  carries the state reached.
\<close>

datatype ('v, 's) outcome = Returns 'v 's | Panics 's | Exits 's

fun final :: "('v, 's) outcome \<Rightarrow> 's" where
  "final (Returns v s) = s"
| "final (Panics s) = s"
| "final (Exits s) = s"


section \<open>Events and the heap\<close>

text \<open>
  \<open>*Event\<close>, \<open>*Client\<close> and \<open>Fields\<close> values are references: a pointer is an address
  (\<open>nat\<close>), \<open>nil\<close> is \<open>None\<close>. \<open>time.Time\<close> is a tick count whose zero value is \<open>0\<close>.
\<close>

record Event =
  c_E :: "nat option"
  closed :: bool
  id_E :: string
  createdAt :: nat
  emittedAt :: nat
  level_E :: Level
  message :: string
  topic :: string
  parentID :: string
  fields_E :: "nat option"

text \<open>
  The heap holds the Event objects and the map objects by address, the idle instances of
  \<open>eventPool\<close>, and what the external collaborators contribute: the strings the id
  provider returns (\<open>nanoidTape\<close>, read at \<open>nanoidCalls\<close>), the choice \<open>sync.Pool\<close> makes
  at each \<open>Get\<close> (\<open>poolTape\<close>, read at \<open>poolGets\<close>), the clock, the entries written by
  logrus, and the state \<open>world\<close> that user handlers act on.
\<close>

record 'u heap =
  events :: "nat \<Rightarrow> Event"
  nextEvent :: nat
  maps :: "nat \<Rightarrow> Fields"
  nextMap :: nat
  eventPool :: "nat list"
  poolTape :: "nat \<Rightarrow> nat"
  poolGets :: nat
  nanoidTape :: "nat \<Rightarrow> string"
  nanoidCalls :: nat
  clock :: nat
  logged :: "(Level \<times> string \<times> Fields) list"
  world :: 'u

definition zeroEvent :: Event where
  "zeroEvent = \<lparr>c_E = None, closed = False, id_E = [], createdAt = 0, emittedAt = 0,
     level_E = 0, message = [], topic = [], parentID = [], fields_E = None\<rparr>"

definition upd_event :: "nat \<Rightarrow> (Event \<Rightarrow> Event) \<Rightarrow> 'u heap \<Rightarrow> 'u heap" where
  "upd_event a f h = h\<lparr>events := (events h)(a := f (events h a))\<rparr>"

definition time_Now :: "'u heap \<Rightarrow> nat \<times> 'u heap" where
  "time_Now h = (Suc (clock h), h\<lparr>clock := Suc (clock h)\<rparr>)"

text \<open>
  \<open>gonanoid.Must(n)\<close>: the next string of the provider; the requested length \<open>n\<close> is
  handed to the provider and plays no part in this library. (\<open>Must\<close> panics only when the
  system's random source fails, which is left out.)
\<close>

definition gonanoid_Must :: "nat \<Rightarrow> 'u heap \<Rightarrow> string \<times> 'u heap" where
  "gonanoid_Must n h = (nanoidTape h (nanoidCalls h), h\<lparr>nanoidCalls := Suc (nanoidCalls h)\<rparr>)"

text \<open>\<open>make(Fields)\<close>: a new, empty map object at an address not in use.\<close>

definition make_Fields :: "'u heap \<Rightarrow> nat \<times> 'u heap" where
  "make_Fields h =
     (nextMap h, h\<lparr>maps := (maps h)(nextMap h := []), nextMap := Suc (nextMap h)\<rparr>)"

text \<open>\<open>m[k] = v\<close> on the map object at address \<open>m\<close>.\<close>

definition map_assign :: "nat \<Rightarrow> string \<Rightarrow> any \<Rightarrow> 'u heap \<Rightarrow> 'u heap" where
  "map_assign m k v h = h\<lparr>maps := (maps h)(m := AList.update k v (maps h m))\<rparr>"

text \<open>\<open>len(m)\<close> and the entries a \<open>range\<close> visits; both treat a nil map as empty.\<close>

definition len_Fields :: "'u heap \<Rightarrow> nat option \<Rightarrow> nat" where
  "len_Fields h r = (case r of None \<Rightarrow> 0 | Some m \<Rightarrow> length (maps h m))"

definition entries :: "'u heap \<Rightarrow> nat option \<Rightarrow> Fields" where
  "entries h r = (case r of None \<Rightarrow> [] | Some m \<Rightarrow> maps h m)"

text \<open>
  \<open>eventPool.Get()\<close> hands out one of the idle instances, or a new zero \<open>&Event{}\<close> (the
  pool's \<open>New\<close>) when the pool's choice falls outside the idle list; \<open>eventPool.Put\<close> makes
  an instance idle.
\<close>

definition eventPool_Get :: "'u heap \<Rightarrow> nat \<times> 'u heap" where
  "eventPool_Get h =
     (let k = poolTape h (poolGets h);
          h1 = h\<lparr>poolGets := Suc (poolGets h)\<rparr>
      in if k < length (eventPool h)
         then (eventPool h ! k, h1\<lparr>eventPool := take k (eventPool h) @ drop (Suc k) (eventPool h)\<rparr>)
         else (nextEvent h,
               h1\<lparr>events := (events h)(nextEvent h := zeroEvent), nextEvent := Suc (nextEvent h)\<rparr>))"

definition eventPool_Put :: "nat \<Rightarrow> 'u heap \<Rightarrow> 'u heap" where
  "eventPool_Put a h = h\<lparr>eventPool := a # eventPool h\<rparr>"

section \<open>Observers (observer.go)\<close>

text \<open>
  A condition reads the event through its pointer; a handler is any function of the
  event pointer on the heap, and may return, panic or exit. Either function value can be
  \<open>nil\<close> (\<open>None\<close>).
\<close>

type_synonym 'u ObserverCondition = "nat \<Rightarrow> 'u heap \<Rightarrow> bool"
type_synonym 'u ObserverHandler = "nat \<Rightarrow> 'u heap \<Rightarrow> (unit, 'u heap) outcome"

record 'u Observer =
  id_O :: string
  cond :: "'u ObserverCondition option"
  handler :: "'u ObserverHandler option"

definition WildcardObserver :: "'u ObserverHandler option \<Rightarrow> 'u Observer" where
  "WildcardObserver hdl = \<lparr>id_O = [], cond = Some (\<lambda>e h. True), handler = hdl\<rparr>"

definition TopicObserver :: "string \<Rightarrow> 'u ObserverHandler option \<Rightarrow> 'u Observer" where
  "TopicObserver tp hdl =
     \<lparr>id_O = [], cond = Some (\<lambda>e h. topic (events h e) = tp), handler = hdl\<rparr>"

definition LevelObserver :: "Level \<Rightarrow> 'u ObserverHandler option \<Rightarrow> 'u Observer" where
  "LevelObserver lv hdl =
     \<lparr>id_O = [], cond = Some (\<lambda>e h. level_E (events h e) \<le> lv), handler = hdl\<rparr>"

section \<open>Clients (the client part of observer.go)\<close>

record 'u Client =
  level_C :: Level
  observers :: "'u Observer option list"

text \<open>
  The clients live beside the heap, by address: a handler is a function on the heap, so
  it can change events, maps, the pool, the log and the world, but it registers no observer
  and changes no client's level.

  \<open>calls\<close> is the history of what the dispatch loop did: \<open>CondEval i b\<close> when the condition
  of the observer at position \<open>i\<close> was evaluated to \<open>b\<close>, \<open>HandlerCall i\<close> when its handler was
  called. It is an observation of the run, out of the handlers' reach; the code has no such
  field.
\<close>

datatype call = CondEval nat bool | HandlerCall nat

record 'u state =
  heap :: "'u heap"
  clients :: "nat \<Rightarrow> 'u Client"
  nextClient :: nat
  calls :: "call list"

definition upd_client :: "nat \<Rightarrow> ('u Client \<Rightarrow> 'u Client) \<Rightarrow> 'u state \<Rightarrow> 'u state" where
  "upd_client a f s = s\<lparr>clients := (clients s)(a := f (clients s a))\<rparr>"

definition WithObserver ::
  "nat option \<Rightarrow> 'u Observer option list \<Rightarrow> 'u state \<Rightarrow> nat option \<times> 'u state" where
  "WithObserver cl os s =
     (case cl of
        None \<Rightarrow> (None, s)
      | Some ca \<Rightarrow> (Some ca, upd_client ca (\<lambda>c. c\<lparr>observers := observers c @ os\<rparr>) s))"

definition WithLevel :: "nat option \<Rightarrow> Level \<Rightarrow> 'u state \<Rightarrow> nat option \<times> 'u state" where
  "WithLevel cl lv s =
     (case cl of
        None \<Rightarrow> (None, s)
      | Some ca \<Rightarrow> (Some ca, upd_client ca (\<lambda>c. c\<lparr>level_C := lv\<rparr>) s))"

subsection \<open>The standard logger\<close>

text \<open>
  The logger made by \<open>logrus.New()\<close> is private to the handler and accepts every severity
  (\<open>SetLevel(TraceLevel)\<close>), so all it contributes is its output: logrus writes one entry
  (severity, message, a copy of the fields) for the severities Trace to Error; \<open>Fatal\<close>
  writes the entry and exits the process, \<open>Panic\<close> writes it and panics.
\<close>

definition logrus_write :: "Level \<Rightarrow> string \<Rightarrow> nat \<Rightarrow> 'u heap \<Rightarrow> 'u heap" where
  "logrus_write lv msg m h = h\<lparr>logged := logged h @ [(lv, msg, maps h m)]\<rparr>"

definition standardLoggerHandler :: "'u ObserverHandler" where
  "standardLoggerHandler e h =
     (case make_Fields h of (fresh, h1) \<Rightarrow>
        let fs = (case fields_E (events h1 e) of
                    None \<Rightarrow> fresh
                  | Some m \<Rightarrow> if length (maps h1 m) > 0 then m else fresh);
            h2 = (if parentID (events h1 e) \<noteq> []
                  then map_assign fs ''parentID'' (AnyString (parentID (events h1 e))) h1
                  else h1);
            msg0 = message (events h2 e);
            msg = (if topic (events h2 e) \<noteq> []
                   then ''['' @ topic (events h2 e) @ ''] '' @ msg0
                   else msg0);
            lv = level_E (events h2 e)
        in if lv = LevelTrace then Returns () (logrus_write lv msg fs h2)
           else if lv = LevelDebug then Returns () (logrus_write lv msg fs h2)
           else if lv = LevelInfo then Returns () (logrus_write lv msg fs h2)
           else if lv = LevelWarn then Returns () (logrus_write lv msg fs h2)
           else if lv = LevelError then Returns () (logrus_write lv msg fs h2)
           else if lv = LevelFatal then Exits (logrus_write lv msg fs h2)
           else if lv = LevelPanic then Panics (logrus_write lv msg fs h2)
           else Returns () h2)"

definition loggerObserver :: "'u Observer" where
  "loggerObserver =
     \<lparr>id_O = ''logger'', cond = Some (\<lambda>e h. True), handler = Some standardLoggerHandler\<rparr>"

text \<open>
  \<open>slices.ContainsFunc(c.observers, func(o) { return o.id == "logger" })\<close>: reading \<open>o.id\<close>
  of a nil \<open>*Observer\<close> panics (\<open>None\<close>); the scan stops at the first match.
\<close>

fun hasLogger :: "'u Observer option list \<Rightarrow> bool option" where
  "hasLogger [] = Some False"
| "hasLogger (None # os) = None"
| "hasLogger (Some ob # os) = (if id_O ob = ''logger'' then Some True else hasLogger os)"

definition WithStandardLogger :: "nat option \<Rightarrow> 'u state \<Rightarrow> (nat option, 'u state) outcome" where
  "WithStandardLogger cl s =
     (case cl of
        None \<Rightarrow> Returns None s
      | Some ca \<Rightarrow>
          (case hasLogger (observers (clients s ca)) of
             None \<Rightarrow> Panics s
           | Some found \<Rightarrow>
               if \<not> found
               then Returns (Some ca) (snd (WithObserver (Some ca) [Some loggerObserver] s))
               else Returns (Some ca) s))"

subsection \<open>Construction with options (option.go)\<close>

type_synonym 'u Option = "nat \<Rightarrow> 'u state \<Rightarrow> (unit, 'u state) outcome"

definition WithLevel_Option :: "Level \<Rightarrow> 'u Option" where
  "WithLevel_Option l = (\<lambda>c s. Returns () (snd (WithLevel (Some c) l s)))"

definition WithObserver_Option :: "'u Observer option list \<Rightarrow> 'u Option" where
  "WithObserver_Option os = (\<lambda>c s. Returns () (snd (WithObserver (Some c) os s)))"

definition WithStandardLogger_Option :: "'u Option" where
  "WithStandardLogger_Option =
     (\<lambda>c s. case WithStandardLogger (Some c) s of
              Returns r s' \<Rightarrow> Returns () s'
            | Panics s' \<Rightarrow> Panics s'
            | Exits s' \<Rightarrow> Exits s')"

fun apply_opts :: "'u Option list \<Rightarrow> nat \<Rightarrow> 'u state \<Rightarrow> (unit, 'u state) outcome" where
  "apply_opts [] c s = Returns () s"
| "apply_opts (opt # opts) c s =
     (case opt c s of
        Returns r s' \<Rightarrow> apply_opts opts c s'
      | Panics s' \<Rightarrow> Panics s'
      | Exits s' \<Rightarrow> Exits s')"

definition New :: "'u Option list \<Rightarrow> 'u state \<Rightarrow> (nat option, 'u state) outcome" where
  "New opts s =
     (let ca = nextClient s;
          s1 = s\<lparr>clients := (clients s)(ca := \<lparr>level_C = LevelInfo, observers = []\<rparr>),
                 nextClient := Suc ca\<rparr>
      in case apply_opts opts ca s1 of
           Returns r s2 \<Rightarrow> Returns (Some ca) s2
         | Panics s2 \<Rightarrow> Panics s2
         | Exits s2 \<Rightarrow> Exits s2)"

section \<open>Event creation\<close>

definition newEvent :: "Level \<Rightarrow> string \<Rightarrow> nat option \<Rightarrow> 'u state \<Rightarrow> nat option \<times> 'u state" where
  "newEvent lv msg cl s =
     (case cl of
        None \<Rightarrow> (None, s)
      | Some ca \<Rightarrow>
          if lv < level_C (clients s ca) then (None, s)
          else
            (case eventPool_Get (heap s) of (e, h0) \<Rightarrow>
             let h1 = upd_event e (\<lambda>ev. ev\<lparr>closed := False\<rparr>) h0
             in case gonanoid_Must 16 h1 of (nid, h2) \<Rightarrow>
             let h3 = upd_event e (\<lambda>ev. ev\<lparr>id_E := nid\<rparr>) h2
             in case time_Now h3 of (now, h4) \<Rightarrow>
             let h5 = upd_event e (\<lambda>ev. ev\<lparr>createdAt := now\<rparr>) h4;
                 h6 = upd_event e (\<lambda>ev. ev\<lparr>emittedAt := 0\<rparr>) h5;
                 h7 = upd_event e (\<lambda>ev. ev\<lparr>level_E := lv\<rparr>) h6;
                 h8 = upd_event e (\<lambda>ev. ev\<lparr>message := msg\<rparr>) h7;
                 h9 = upd_event e (\<lambda>ev. ev\<lparr>topic := []\<rparr>) h8;
                 h10 = upd_event e (\<lambda>ev. ev\<lparr>parentID := []\<rparr>) h9
             in case make_Fields h10 of (m, h11) \<Rightarrow>
             let h12 = upd_event e (\<lambda>ev. ev\<lparr>fields_E := Some m\<rparr>) h11;
                 h13 = upd_event e (\<lambda>ev. ev\<lparr>c_E := Some ca\<rparr>) h12
             in (Some e, s\<lparr>heap := h13\<rparr>)))"

text \<open>
  The per-level constructors of a client; the message is the text that \<open>fmt.Sprint\<close> or
  \<open>fmt.Sprintf\<close> built from the arguments. The package-level functions of the same names
  are these on the default client.
\<close>

definition Client_Trace :: "nat option \<Rightarrow> string \<Rightarrow> 'u state \<Rightarrow> nat option \<times> 'u state" where
  "Client_Trace c msg s = newEvent LevelTrace msg c s"

definition Client_Debug :: "nat option \<Rightarrow> string \<Rightarrow> 'u state \<Rightarrow> nat option \<times> 'u state" where
  "Client_Debug c msg s = newEvent LevelDebug msg c s"

definition Client_Info :: "nat option \<Rightarrow> string \<Rightarrow> 'u state \<Rightarrow> nat option \<times> 'u state" where
  "Client_Info c msg s = newEvent LevelInfo msg c s"

definition Client_Warn :: "nat option \<Rightarrow> string \<Rightarrow> 'u state \<Rightarrow> nat option \<times> 'u state" where
  "Client_Warn c msg s = newEvent LevelWarn msg c s"

definition Client_Error :: "nat option \<Rightarrow> string \<Rightarrow> 'u state \<Rightarrow> nat option \<times> 'u state" where
  "Client_Error c msg s = newEvent LevelError msg c s"

definition Client_Fatal :: "nat option \<Rightarrow> string \<Rightarrow> 'u state \<Rightarrow> nat option \<times> 'u state" where
  "Client_Fatal c msg s = newEvent LevelFatal msg c s"

definition Client_Panic :: "nat option \<Rightarrow> string \<Rightarrow> 'u state \<Rightarrow> nat option \<times> 'u state" where
  "Client_Panic c msg s = newEvent LevelPanic msg c s"

section \<open>Event methods\<close>

definition ID :: "nat option \<Rightarrow> 'u heap \<Rightarrow> string" where
  "ID e h = (case e of None \<Rightarrow> [] | Some a \<Rightarrow> id_E (events h a))"

definition Evict :: "nat option \<Rightarrow> 'u heap \<Rightarrow> 'u heap" where
  "Evict e h = (case e of None \<Rightarrow> h | Some a \<Rightarrow> eventPool_Put a h)"

text \<open>
  \<open>Fields\<close> copies the event's entries and then the argument's into a new map and makes it
  the event's map. The argument is only read, so it is passed as its entries.
\<close>

definition Fields :: "nat option \<Rightarrow> Fields \<Rightarrow> 'u heap \<Rightarrow> nat option \<times> 'u heap" where
  "Fields e fs h =
     (case e of
        None \<Rightarrow> (None, h)
      | Some a \<Rightarrow>
          (case make_Fields h of (data, h1) \<Rightarrow>
           let h2 = fold (\<lambda>(k, v). map_assign data k v) (entries h1 (fields_E (events h1 a))) h1;
               h3 = fold (\<lambda>(k, v). map_assign data k v) fs h2
           in (Some a, upd_event a (\<lambda>ev. ev\<lparr>fields_E := Some data\<rparr>) h3)))"

definition Field :: "nat option \<Rightarrow> string \<Rightarrow> any \<Rightarrow> 'u heap \<Rightarrow> nat option \<times> 'u heap" where
  "Field e k v h = (case e of None \<Rightarrow> (None, h) | Some a \<Rightarrow> Fields e [(k, v)] h)"

definition WithError :: "nat option \<Rightarrow> any \<Rightarrow> 'u heap \<Rightarrow> nat option \<times> 'u heap" where
  "WithError e err h = (case e of None \<Rightarrow> (None, h) | Some a \<Rightarrow> Fields e [(''error'', err)] h)"

definition Level :: "nat option \<Rightarrow> Level \<Rightarrow> 'u heap \<Rightarrow> nat option \<times> 'u heap" where
  "Level e lv h =
     (case e of None \<Rightarrow> (None, h) | Some a \<Rightarrow> (Some a, upd_event a (\<lambda>ev. ev\<lparr>level_E := lv\<rparr>) h))"

text \<open>\<open>Message\<close> and \<open>Messagef\<close> take the text that \<open>fmt.Sprint\<close> or \<open>fmt.Sprintf\<close> built.\<close>

definition Message :: "nat option \<Rightarrow> string \<Rightarrow> 'u heap \<Rightarrow> nat option \<times> 'u heap" where
  "Message e msg h =
     (case e of None \<Rightarrow> (None, h) | Some a \<Rightarrow> (Some a, upd_event a (\<lambda>ev. ev\<lparr>message := msg\<rparr>) h))"

definition ParentID :: "nat option \<Rightarrow> string \<Rightarrow> 'u heap \<Rightarrow> nat option \<times> 'u heap" where
  "ParentID e pid h =
     (case e of None \<Rightarrow> (None, h) | Some a \<Rightarrow> (Some a, upd_event a (\<lambda>ev. ev\<lparr>parentID := pid\<rparr>) h))"

definition Topic :: "nat option \<Rightarrow> string \<Rightarrow> 'u heap \<Rightarrow> nat option \<times> 'u heap" where
  "Topic e tp h =
     (case e of None \<Rightarrow> (None, h) | Some a \<Rightarrow> (Some a, upd_event a (\<lambda>ev. ev\<lparr>topic := tp\<rparr>) h))"

text \<open>
  \<open>newChildEvent\<close>: the parent's id is read when \<open>ParentID\<close> is called, that is after
  \<open>newEvent\<close> has returned.
\<close>

definition newChildEvent :: "Level \<Rightarrow> string \<Rightarrow> nat option \<Rightarrow> 'u state \<Rightarrow> nat option \<times> 'u state" where
  "newChildEvent lv msg e s =
     (case e of
        None \<Rightarrow> (None, s)
      | Some p \<Rightarrow>
          (case c_E (events (heap s) p) of
             None \<Rightarrow> (None, s)
           | Some ca \<Rightarrow>
               if lv < level_C (clients s ca) then (None, s)
               else
                 (case newEvent lv msg (Some ca) s of (ce, s1) \<Rightarrow>
                  case ParentID ce (id_E (events (heap s1) p)) (heap s1) of (r, h2) \<Rightarrow>
                    (r, s1\<lparr>heap := h2\<rparr>))))"

text \<open>The per-level constructors of a child event.\<close>

definition Event_Trace :: "nat option \<Rightarrow> string \<Rightarrow> 'u state \<Rightarrow> nat option \<times> 'u state" where
  "Event_Trace e msg s = newChildEvent LevelTrace msg e s"

definition Event_Debug :: "nat option \<Rightarrow> string \<Rightarrow> 'u state \<Rightarrow> nat option \<times> 'u state" where
  "Event_Debug e msg s = newChildEvent LevelDebug msg e s"

definition Event_Info :: "nat option \<Rightarrow> string \<Rightarrow> 'u state \<Rightarrow> nat option \<times> 'u state" where
  "Event_Info e msg s = newChildEvent LevelInfo msg e s"

definition Event_Warn :: "nat option \<Rightarrow> string \<Rightarrow> 'u state \<Rightarrow> nat option \<times> 'u state" where
  "Event_Warn e msg s = newChildEvent LevelWarn msg e s"

definition Event_Error :: "nat option \<Rightarrow> string \<Rightarrow> 'u state \<Rightarrow> nat option \<times> 'u state" where
  "Event_Error e msg s = newChildEvent LevelError msg e s"

definition Event_Fatal :: "nat option \<Rightarrow> string \<Rightarrow> 'u state \<Rightarrow> nat option \<times> 'u state" where
  "Event_Fatal e msg s = newChildEvent LevelFatal msg e s"

definition Event_Panic :: "nat option \<Rightarrow> string \<Rightarrow> 'u state \<Rightarrow> nat option \<times> 'u state" where
  "Event_Panic e msg s = newChildEvent LevelPanic msg e s"

section \<open>Emission\<close>

text \<open>
  The loop \<open>for _, o := range e.c.observers\<close>, from position \<open>i\<close> on; the slice is read once,
  before the first iteration. A nil observer, a nil condition and a nil handler panic where
  the code dereferences or calls them; a handler that panics or exits ends the loop with
  that outcome.
\<close>

fun dispatch :: "nat \<Rightarrow> 'u Observer option list \<Rightarrow> nat \<Rightarrow> 'u state \<Rightarrow> (unit, 'u state) outcome" where
  "dispatch i [] e s = Returns () s"
| "dispatch i (None # os) e s = Panics s"
| "dispatch i (Some ob # os) e s =
     (case cond ob of
        None \<Rightarrow> Panics s
      | Some cnd \<Rightarrow>
          if cnd e (heap s) then
            (case handler ob of
               None \<Rightarrow> Panics (s\<lparr>calls := calls s @ [CondEval i True]\<rparr>)
             | Some hdl \<Rightarrow>
                 (case hdl e (heap s) of
                    Returns r h' \<Rightarrow>
                      dispatch (Suc i) os e
                        (s\<lparr>heap := h', calls := calls s @ [CondEval i True, HandlerCall i]\<rparr>)
                  | Panics h' \<Rightarrow>
                      Panics (s\<lparr>heap := h', calls := calls s @ [CondEval i True, HandlerCall i]\<rparr>)
                  | Exits h' \<Rightarrow>
                      Exits (s\<lparr>heap := h', calls := calls s @ [CondEval i True, HandlerCall i]\<rparr>)))
          else dispatch (Suc i) os e (s\<lparr>calls := calls s @ [CondEval i False]\<rparr>))"

text \<open>\<open>len(hold) > 0 && hold[0]\<close> on the variadic argument.\<close>

fun held :: "bool list \<Rightarrow> bool" where
  "held [] = False"
| "held (b # bs) = b"

definition Emit :: "nat option \<Rightarrow> bool list \<Rightarrow> 'u state \<Rightarrow> (nat option, 'u state) outcome" where
  "Emit e hold s =
     (case e of
        None \<Rightarrow> Returns None s
      | Some a \<Rightarrow>
          if closed (events (heap s) a) then Returns (Some a) s
          else
            (case time_Now (heap s) of (now, h1) \<Rightarrow>
             let h2 = upd_event a (\<lambda>ev. ev\<lparr>emittedAt := now\<rparr>) h1;
                 h3 = upd_event a (\<lambda>ev. ev\<lparr>closed := True\<rparr>) h2;
                 s3 = s\<lparr>heap := h3\<rparr>
             in (case c_E (events h3 a) of
                   None \<Rightarrow> Panics s3
                 | Some ca \<Rightarrow>
                     (case dispatch 0 (observers (clients s3 ca)) a s3 of
                        Returns r s4 \<Rightarrow>
                          (if held hold then Returns (Some a) s4
                           else Returns (Some a) (s4\<lparr>heap := eventPool_Put a (heap s4)\<rparr>))
                      | Panics s4 \<Rightarrow> Panics s4
                      | Exits s4 \<Rightarrow> Exits s4))))"

section \<open>Notions used to state the properties\<close>

text \<open>
  The calls that a run from \<open>s\<close> to \<open>s'\<close> added to the history, the positions whose handler
  was called, and the positions whose condition was evaluated, with the result.
\<close>

definition new_calls :: "'u state \<Rightarrow> 'u state \<Rightarrow> call list" where
  "new_calls s s' = drop (length (calls s)) (calls s')"




text \<open>
  The state in which \<open>Emit\<close> enters its loop: \<open>emittedAt\<close> stamped and \<open>closed\<close> set.
\<close>

definition stamped :: "nat \<Rightarrow> 'u state \<Rightarrow> 'u state" where
  "stamped a s =
     s\<lparr>heap := upd_event a (\<lambda>ev. ev\<lparr>closed := True\<rparr>)
        (upd_event a (\<lambda>ev. ev\<lparr>emittedAt := fst (time_Now (heap s))\<rparr>) (snd (time_Now (heap s))))\<rparr>"


text \<open>
  The \<open>fields\<close> of the event at \<open>a\<close> is nil or a map object that has been allocated and
  holds one entry per key, as every Go map does.
\<close>

definition valid_fields :: "'u heap \<Rightarrow> nat \<Rightarrow> bool" where
  "valid_fields h a =
     (case fields_E (events h a) of
        None \<Rightarrow> True
      | Some m \<Rightarrow> m < nextMap h \<and> distinct (map fst (maps h m)))"

text \<open>The observers keyed \<open>"logger"\<close>, and \<open>n\<close> chained calls of \<open>WithStandardLogger\<close>.\<close>

fun is_logger :: "'u Observer option \<Rightarrow> bool" where
  "is_logger None = False"
| "is_logger (Some ob) = (id_O ob = ''logger'')"

definition count_loggers :: "'u Observer option list \<Rightarrow> nat" where
  "count_loggers os = length (filter is_logger os)"

fun WithStandardLogger_times ::
  "nat \<Rightarrow> nat option \<Rightarrow> 'u state \<Rightarrow> (nat option, 'u state) outcome" where
  "WithStandardLogger_times 0 cl s = Returns cl s"
| "WithStandardLogger_times (Suc n) cl s =
     (case WithStandardLogger cl s of
        Returns cl' s' \<Rightarrow> WithStandardLogger_times n cl' s'
      | Panics s' \<Rightarrow> Panics s'
      | Exits s' \<Rightarrow> Exits s')"

section \<open>A concrete run\<close>

text \<open>
  An empty heap whose pool hands out the instance released last (what \<open>sync.Pool\<close> does on
  one goroutine) and whose id provider returns \<open>x\<close>, \<open>xx\<close>, \<open>xxx\<close>, ...; user handlers
  append to a list of strings.
\<close>

definition heap0 :: "string list heap" where
  "heap0 = \<lparr>events = (\<lambda>a. zeroEvent), nextEvent = 0, maps = (\<lambda>m. []), nextMap = 0,
     eventPool = [], poolTape = (\<lambda>k. 0), poolGets = 0,
     nanoidTape = (\<lambda>k. replicate (Suc k) (CHR ''x'')), nanoidCalls = 0, clock = 0,
     logged = [], world = []\<rparr>"

definition state0 :: "string list state" where
  "state0 = \<lparr>heap = heap0, clients = (\<lambda>a. \<lparr>level_C = 0, observers = []\<rparr>),
     nextClient = 0, calls = []\<rparr>"

text \<open>\<open>New()\<close>, and the same client after \<open>WithLevel(LevelNone)\<close>.\<close>

definition state1 :: "string list state" where
  "state1 = final (New [] state0)"


text \<open>
  A client with the standard logger, a by-level observer (threshold Debug) and a by-topic
  observer (topic \<open>db\<close>); an Info event \<open>parent\<close> on it with topic \<open>db\<close> and the field
  \<open>a: 1\<close>; that event emitted with \<open>hold\<close> and without; a Warn child of the held parent, and
  the child after \<open>Field("k", true)\<close>.
\<close>

definition remember :: "string \<Rightarrow> string list ObserverHandler" where
  "remember tag = (\<lambda>e h. Returns () (h\<lparr>world := world h @ [tag @ message (events h e)]\<rparr>))"

definition demoObservers :: "string list Observer option list" where
  "demoObservers =
     [Some loggerObserver,
      Some (LevelObserver LevelDebug (Some (remember ''low:''))),
      Some (TopicObserver ''db'' (Some (remember ''db:'')))]"

definition demo :: "string list state" where
  "demo = final (New [WithStandardLogger_Option,
       WithObserver_Option [Some (LevelObserver LevelDebug (Some (remember ''low:''))),
                            Some (TopicObserver ''db'' (Some (remember ''db:'')))]] state0)"

definition demoParent :: "string list state" where
  "demoParent =
     (case Client_Info (Some 0) ''parent'' demo of (e, s) \<Rightarrow>
      case Topic e ''db'' (heap s) of (e, h) \<Rightarrow>
      case Field e ''a'' (AnyInt 1) h of (e, h) \<Rightarrow> s\<lparr>heap := h\<rparr>)"

definition demoHeld :: "string list state" where
  "demoHeld = final (Emit (Some 0) [True] demoParent)"

definition demoReleased :: "string list state" where
  "demoReleased = final (Emit (Some 0) [] demoParent)"

definition demoChild :: "string list state" where
  "demoChild = snd (Event_Warn (Some 0) ''child'' demoHeld)"

definition demoChildFields :: "string list heap" where
  "demoChildFields = snd (Field (Some 1) ''k'' (AnyBool True) (heap demoChild))"

section \<open>Basic facts\<close>

lemmas Level_defs =
  LevelNone_def LevelTrace_def LevelDebug_def LevelInfo_def
  LevelWarn_def LevelError_def LevelFatal_def LevelPanic_def

lemma eventPool_Get_fields [simp]:
  "nextMap (snd (eventPool_Get h)) = nextMap h"
  "nanoidTape (snd (eventPool_Get h)) = nanoidTape h"
  "nanoidCalls (snd (eventPool_Get h)) = nanoidCalls h"
  "clock (snd (eventPool_Get h)) = clock h"
  "maps (snd (eventPool_Get h)) = maps h"
  by (simp_all add: eventPool_Get_def Let_def)

lemma eventPool_Get_others:
  "b \<noteq> fst (eventPool_Get h) \<Longrightarrow> events (snd (eventPool_Get h)) b = events h b"
  by (auto simp add: eventPool_Get_def Let_def split: if_splits)

text \<open>An instance that is allocated and not idle is never the one the pool hands out.\<close>

lemma eventPool_Get_live:
  "p < nextEvent h \<Longrightarrow> p \<notin> set (eventPool h) \<Longrightarrow> fst (eventPool_Get h) \<noteq> p"
  by (auto simp add: eventPool_Get_def Let_def)

lemma Event_all_updates:
  "ev\<lparr>closed := a, id_E := b, createdAt := c, emittedAt := d, level_E := e, message := f,
      topic := g, parentID := h, fields_E := i, c_E := j\<rparr> =
   \<lparr>c_E = j, closed = a, id_E = b, createdAt = c, emittedAt = d, level_E = e, message = f,
      topic = g, parentID = h, fields_E = i\<rparr>"
  by (cases ev) simp

subsection \<open>\<open>newEvent\<close>\<close>

lemma newEvent_nil_client: "newEvent lv msg None s = (None, s)"
  by (simp add: newEvent_def)

lemma newEvent_filtered:
  "lv < level_C (clients s ca) \<Longrightarrow> newEvent lv msg (Some ca) s = (None, s)"
  by (simp add: newEvent_def)

lemma newEvent_accepted:
  assumes "\<not> lv < level_C (clients s ca)"
  shows "\<exists>s'. newEvent lv msg (Some ca) s = (Some (fst (eventPool_Get (heap s))), s') \<and>
     events (heap s') (fst (eventPool_Get (heap s))) =
       \<lparr>c_E = Some ca, closed = False, id_E = nanoidTape (heap s) (nanoidCalls (heap s)),
        createdAt = Suc (clock (heap s)), emittedAt = 0, level_E = lv, message = msg,
        topic = [], parentID = [], fields_E = Some (nextMap (heap s))\<rparr> \<and>
     maps (heap s') (nextMap (heap s)) = [] \<and>
     nextMap (heap s') = Suc (nextMap (heap s)) \<and>
     nanoidCalls (heap s') = Suc (nanoidCalls (heap s)) \<and>
     (\<forall>b. b \<noteq> fst (eventPool_Get (heap s)) \<longrightarrow> events (heap s') b = events (heap s) b) \<and>
     (\<forall>m. m \<noteq> nextMap (heap s) \<longrightarrow> maps (heap s') m = maps (heap s) m) \<and>
     clients s' = clients s \<and> calls s' = calls s"
  using assms
  by (simp add: newEvent_def upd_event_def gonanoid_Must_def time_Now_def make_Fields_def
      Let_def case_prod_unfold Event_all_updates eventPool_Get_others)

lemma newChildEvent_nil: "newChildEvent lv msg None s = (None, s)"
  by (simp add: newChildEvent_def)

subsection \<open>The dispatch loop\<close>











subsection \<open>\<open>Emit\<close>\<close>



lemma stamped_simps [simp]:
  "clients (stamped a s) = clients s"
  "calls (stamped a s) = calls s"
  "closed (events (heap (stamped a s)) a)"
  by (simp_all add: stamped_def upd_event_def time_Now_def)



subsection \<open>The standard logger\<close>

text \<open>
  The handler changes no event. It allocates one map; the map it hands to logrus is the
  event's own map when that is allocated and non-empty, and the new map otherwise.
\<close>

lemma standardLoggerHandler_final:
  "events (final (standardLoggerHandler e h)) = events h \<and>
   nextMap (final (standardLoggerHandler e h)) = Suc (nextMap h) \<and>
   maps (final (standardLoggerHandler e h)) =
     (let fs = (case fields_E (events h e) of
                  None \<Rightarrow> nextMap h
                | Some m \<Rightarrow> if m \<noteq> nextMap h \<and> maps h m \<noteq> [] then m else nextMap h)
      in if parentID (events h e) \<noteq> []
         then ((maps h)(nextMap h := []))(fs :=
                 AList.update ''parentID'' (AnyString (parentID (events h e)))
                   (((maps h)(nextMap h := [])) fs))
         else (maps h)(nextMap h := []))"
  by (simp add: standardLoggerHandler_def make_Fields_def Let_def map_assign_def
      logrus_write_def split: option.splits)

lemma hasLogger_count:
  "None \<notin> set os \<Longrightarrow> hasLogger os = Some (0 < count_loggers os)"
  by (induction os rule: hasLogger.induct) (auto simp add: count_loggers_def)

lemma WithStandardLogger_present:
  assumes "None \<notin> set (observers (clients s ca))"
    and "0 < count_loggers (observers (clients s ca))"
  shows "WithStandardLogger (Some ca) s = Returns (Some ca) s"
  using assms by (simp add: WithStandardLogger_def hasLogger_count)

lemma WithStandardLogger_absent:
  assumes "None \<notin> set (observers (clients s ca))"
    and "count_loggers (observers (clients s ca)) = 0"
  shows "\<exists>s'. WithStandardLogger (Some ca) s = Returns (Some ca) s' \<and>
     observers (clients s' ca) = observers (clients s ca) @ [Some loggerObserver] \<and>
     None \<notin> set (observers (clients s' ca)) \<and>
     count_loggers (observers (clients s' ca)) = 1"
  using assms
  by (simp add: WithStandardLogger_def hasLogger_count WithObserver_def upd_client_def
      count_loggers_def loggerObserver_def)

lemma WithStandardLogger_times_present:
  assumes "None \<notin> set (observers (clients s ca))"
    and "0 < count_loggers (observers (clients s ca))"
  shows "WithStandardLogger_times n (Some ca) s = Returns (Some ca) s"
  by (induction n) (simp_all add: WithStandardLogger_present [OF assms])

text \<open>
  The observers that the three constructors build are not keyed \<open>"logger"\<close>, so
  registering them leaves the number of logger observers as it is.
\<close>

lemma constructors_not_logger:
  "\<not> is_logger (Some (WildcardObserver hdl))"
  "\<not> is_logger (Some (TopicObserver tp hdl))"
  "\<not> is_logger (Some (LevelObserver lv hdl))"
  by (simp_all add: WildcardObserver_def TopicObserver_def LevelObserver_def)

lemma WithObserver_count_loggers:
  "\<forall>ob \<in> set os. \<not> is_logger ob \<Longrightarrow>
   count_loggers (observers (clients (snd (WithObserver (Some ca) os s)) ca)) =
     count_loggers (observers (clients s ca))"
  by (simp add: WithObserver_def upd_client_def count_loggers_def)

subsection \<open>Copying entries into a map\<close>

lemma fold_map_assign:
  "maps (fold (\<lambda>(k, v). map_assign d k v) xs h) =
     (maps h)(d := fold (\<lambda>(k, v). AList.update k v) xs (maps h d)) \<and>
   events (fold (\<lambda>(k, v). map_assign d k v) xs h) = events h \<and>
   nextMap (fold (\<lambda>(k, v). map_assign d k v) xs h) = nextMap h"
  by (induction xs arbitrary: h) (auto simp add: map_assign_def)

lemma map_of_fold_update:
  "distinct (map fst xs) \<Longrightarrow>
   map_of (fold (\<lambda>(k, v). AList.update k v) xs acc) = map_of acc ++ map_of xs"
proof (induction xs arbitrary: acc)
  case Nil
  then show ?case by simp
next
  case (Cons x xs)
  obtain k v where x: "x = (k, v)" by (cases x)
  from Cons.prems x have k: "k \<notin> dom (map_of xs)" and d: "distinct (map fst xs)"
    by (auto simp add: dom_map_of_conv_image_fst)
  from Cons.IH [OF d, of "AList.update k v acc"] k show ?case
    by (auto simp add: x update_conv' map_add_def fun_eq_iff domIff split: option.splits)
qed

lemma distinct_fold_update:
  "distinct (map fst acc) \<Longrightarrow> distinct (map fst (fold (\<lambda>(k, v). AList.update k v) xs acc))"
  by (induction xs arbitrary: acc) (auto simp add: distinct_update)

section \<open>The concrete run, computed\<close>

lemma state1_client: "clients state1 0 = \<lparr>level_C = LevelInfo, observers = []\<rparr>"
  by (simp add: state1_def New_def state0_def Let_def)


lemma demo_eq:
  "demo = \<lparr>heap = heap0,
     clients = (\<lambda>a. \<lparr>level_C = 0, observers = []\<rparr>)
        (0 := \<lparr>level_C = LevelInfo, observers = demoObservers\<rparr>),
     nextClient = 1, calls = []\<rparr>"
  by (simp add: demo_def New_def state0_def Let_def WithStandardLogger_Option_def
      WithStandardLogger_def WithObserver_Option_def WithObserver_def upd_client_def
      demoObservers_def)

lemma demoParent_eq:
  "demoParent = demo\<lparr>heap := heap0\<lparr>
      events := (\<lambda>a. zeroEvent)(0 := \<lparr>c_E = Some 0, closed = False, id_E = ''x'',
         createdAt = 1, emittedAt = 0, level_E = LevelInfo, message = ''parent'', topic = ''db'',
         parentID = [], fields_E = Some 1\<rparr>),
      nextEvent := 1, maps := (\<lambda>m. [])(0 := [], 1 := [(''a'', AnyInt 1)]), nextMap := 2,
      poolGets := 1, nanoidCalls := 1, clock := 1\<rparr>\<rparr>"
  by (simp add: demoParent_def demo_eq Client_Info_def newEvent_def Level_defs eventPool_Get_def
      Let_def heap0_def upd_event_def gonanoid_Must_def time_Now_def make_Fields_def Topic_def
      Field_def Fields_def entries_def map_assign_def zeroEvent_def fun_upd_twist)

lemmas demo_run_defs =
  Emit_def Level_defs Let_def heap0_def upd_event_def time_Now_def make_Fields_def
  demoObservers_def loggerObserver_def standardLoggerHandler_def logrus_write_def
  LevelObserver_def TopicObserver_def remember_def map_assign_def eval_nat_numeral
  eventPool_Put_def

lemma demoHeld_eq:
  "demoHeld = demo\<lparr>heap := heap0\<lparr>
      events := (\<lambda>a. zeroEvent)(0 := \<lparr>c_E = Some 0, closed = True, id_E = ''x'',
         createdAt = 1, emittedAt = 2, level_E = LevelInfo, message = ''parent'', topic = ''db'',
         parentID = [], fields_E = Some 1\<rparr>),
      nextEvent := 1, maps := (\<lambda>m. [])(0 := [], 1 := [(''a'', AnyInt 1)], 2 := []),
      nextMap := 3, poolGets := 1, nanoidCalls := 1, clock := 2,
      logged := [(LevelInfo, ''[db] parent'', [(''a'', AnyInt 1)])],
      world := [''db:parent'']\<rparr>,
    calls := [CondEval 0 True, HandlerCall 0, CondEval 1 False, CondEval 2 True, HandlerCall 2]\<rparr>"
  by (simp add: demoHeld_def demoParent_eq demo_eq demo_run_defs)

lemma demoReleased_eq:
  "demoReleased = demoHeld\<lparr>heap := (heap demoHeld)\<lparr>eventPool := [0]\<rparr>\<rparr>"
  by (simp add: demoReleased_def demoHeld_eq demoParent_eq demo_eq demo_run_defs)






lemma demo_tape_inj: "inj (\<lambda>k. replicate (Suc k) (CHR ''x''))"
proof (rule injI)
  fix i j :: nat
  assume "replicate (Suc i) (CHR ''x'') = replicate (Suc j) (CHR ''x'')"
  then have "length (replicate (Suc i) (CHR ''x'')) = length (replicate (Suc j) (CHR ''x''))"
    by (rule arg_cong)
  then show "i = j" by simp
qed

lemma demoChild_facts:
  "events (heap demoChild) (Suc 0) = \<lparr>c_E = Some 0, closed = False, id_E = ''xx'',
         createdAt = 3, emittedAt = 0, level_E = LevelWarn, message = ''child'', topic = [],
         parentID = ''x'', fields_E = Some 3\<rparr>"
  "maps (heap demoChild) 3 = []"
  "nextMap (heap demoChild) = 4"
  by (simp_all add: demoChild_def Event_Warn_def demoHeld_eq demo_eq newChildEvent_def
      newEvent_def Level_defs eventPool_Get_def Let_def heap0_def upd_event_def gonanoid_Must_def
      time_Now_def make_Fields_def ParentID_def eval_nat_numeral zeroEvent_def)

lemma demoChildFields_facts:
  "events demoChildFields (Suc 0) = \<lparr>c_E = Some 0, closed = False, id_E = ''xx'',
         createdAt = 3, emittedAt = 0, level_E = LevelWarn, message = ''child'', topic = [],
         parentID = ''x'', fields_E = Some 4\<rparr>"
  "maps demoChildFields 4 = [(''k'', AnyBool True)]"
  "nextMap demoChildFields = 5"
  by (simp_all add: demoChildFields_def demoChild_facts Field_def Fields_def make_Fields_def
      Let_def entries_def map_assign_def upd_event_def)

section \<open>The claims\<close>

subsection \<open>C1: a client whose minimum level is None\<close>




subsection \<open>C2: \<open>Emit\<close> is idempotent\<close>



subsection \<open>C3: a handler fires exactly when its condition holds, in registration order\<close>



subsection \<open>C4: when \<open>newEvent\<close> returns nil\<close>

text \<open>
  C4: \<open>newEvent(L, m, c)\<close> returns nil exactly when \<open>c\<close> is nil or \<open>L < c.level\<close>; otherwise
  it returns a non-nil event that carries level \<open>L\<close>, message \<open>m\<close> and \<open>c\<close> as owning client.
  On the client of \<open>New()\<close>, whose level is Info, \<open>Trace\<close> and \<open>Debug\<close> return nil and \<open>Info\<close>,
  \<open>Warn\<close>, \<open>Error\<close>, \<open>Fatal\<close> and \<open>Panic\<close> return an event.
\<close>

theorem newEvent_nil_iff:
  "(fst (newEvent lv msg cl s) = None) =
     (cl = None \<or> (\<exists>ca. cl = Some ca \<and> lv < level_C (clients s ca))) \<and>
   (\<forall>e. fst (newEvent lv msg cl s) = Some e \<longrightarrow>
      level_E (events (heap (snd (newEvent lv msg cl s))) e) = lv \<and>
      message (events (heap (snd (newEvent lv msg cl s))) e) = msg \<and>
      c_E (events (heap (snd (newEvent lv msg cl s))) e) = cl)"
proof (cases cl)
  case None
  then show ?thesis by (simp add: newEvent_nil_client)
next
  case (Some ca)
  show ?thesis
  proof (cases "lv < level_C (clients s ca)")
    case True
    with Some show ?thesis by (simp add: newEvent_filtered)
  next
    case False
    from newEvent_accepted [OF False, of msg] Some False show ?thesis by auto
  qed
qed

theorem newEvent_nil_iff_witness:
  "level_C (clients state1 0) = LevelInfo \<and>
   fst (Client_Trace (Some 0) ''boot'' state1) = None \<and>
   fst (Client_Debug (Some 0) ''boot'' state1) = None \<and>
   fst (Client_Info (Some 0) ''boot'' state1) \<noteq> None \<and>
   fst (Client_Warn (Some 0) ''boot'' state1) \<noteq> None \<and>
   fst (Client_Error (Some 0) ''boot'' state1) \<noteq> None \<and>
   fst (Client_Fatal (Some 0) ''boot'' state1) \<noteq> None \<and>
   fst (Client_Panic (Some 0) ''boot'' state1) \<noteq> None \<and>
   fst (Client_Panic None ''boot'' state1) = None"
  using newEvent_nil_iff [of LevelTrace "''boot''" "Some 0" state1]
    newEvent_nil_iff [of LevelDebug "''boot''" "Some 0" state1]
    newEvent_nil_iff [of LevelInfo "''boot''" "Some 0" state1]
    newEvent_nil_iff [of LevelWarn "''boot''" "Some 0" state1]
    newEvent_nil_iff [of LevelError "''boot''" "Some 0" state1]
    newEvent_nil_iff [of LevelFatal "''boot''" "Some 0" state1]
    newEvent_nil_iff [of LevelPanic "''boot''" "Some 0" state1]
    newEvent_nil_iff [of LevelPanic "''boot''" None state1]
  by (simp add: state1_client Level_defs Client_Trace_def Client_Debug_def Client_Info_def
      Client_Warn_def Client_Error_def Client_Fatal_def Client_Panic_def)

subsection \<open>C5: an accepted creation resets the pooled instance\<close>

text \<open>
  C5: an accepted creation returns the instance the pool handed out with every field
  overwritten, whatever the instance held before: \<open>closed\<close> is false, \<open>emittedAt\<close> is zero,
  \<open>topic\<close> and \<open>parentID\<close> are empty, \<open>fields\<close> is a map allocated by this call and empty,
  \<open>level\<close>, \<open>message\<close>, the client and \<open>createdAt\<close> are those of this call, and \<open>id\<close> is the
  next string of the id provider, which differs from every id issued before when the
  provider never repeats itself.
\<close>

theorem newEvent_resets:
  assumes "\<not> lv < level_C (clients s ca)"
  shows "\<exists>e s'. newEvent lv msg (Some ca) s = (Some e, s') \<and>
     e = fst (eventPool_Get (heap s)) \<and>
     events (heap s') e =
       \<lparr>c_E = Some ca, closed = False, id_E = nanoidTape (heap s) (nanoidCalls (heap s)),
        createdAt = Suc (clock (heap s)), emittedAt = 0, level_E = lv, message = msg,
        topic = [], parentID = [], fields_E = Some (nextMap (heap s))\<rparr> \<and>
     maps (heap s') (nextMap (heap s)) = [] \<and>
     nextMap (heap s') = Suc (nextMap (heap s)) \<and>
     nanoidCalls (heap s') = Suc (nanoidCalls (heap s)) \<and>
     (inj (nanoidTape (heap s)) \<longrightarrow>
        (\<forall>k < nanoidCalls (heap s). id_E (events (heap s') e) \<noteq> nanoidTape (heap s) k))"
proof -
  from newEvent_accepted [OF assms, of msg] obtain s' where
    s': "newEvent lv msg (Some ca) s = (Some (fst (eventPool_Get (heap s))), s')"
    and ev: "events (heap s') (fst (eventPool_Get (heap s))) =
       \<lparr>c_E = Some ca, closed = False, id_E = nanoidTape (heap s) (nanoidCalls (heap s)),
        createdAt = Suc (clock (heap s)), emittedAt = 0, level_E = lv, message = msg,
        topic = [], parentID = [], fields_E = Some (nextMap (heap s))\<rparr>"
    and mp: "maps (heap s') (nextMap (heap s)) = []"
    and cnt: "nextMap (heap s') = Suc (nextMap (heap s))"
      "nanoidCalls (heap s') = Suc (nanoidCalls (heap s))"
    by blast
  have fresh: "inj (nanoidTape (heap s)) \<longrightarrow>
        (\<forall>k < nanoidCalls (heap s).
           id_E (events (heap s') (fst (eventPool_Get (heap s)))) \<noteq> nanoidTape (heap s) k)"
    by (auto simp add: ev dest: injD)
  from s' ev mp cnt fresh show ?thesis by blast
qed

theorem newEvent_resets_witness:
  "\<not> LevelError < level_C (clients demoReleased 0) \<and>
   inj (nanoidTape (heap demoReleased)) \<and>
   events (heap demoReleased) 0 = \<lparr>c_E = Some 0, closed = True, id_E = ''x'',
         createdAt = 1, emittedAt = 2, level_E = LevelInfo, message = ''parent'', topic = ''db'',
         parentID = [], fields_E = Some 1\<rparr> \<and>
   maps (heap demoReleased) 1 = [(''a'', AnyInt 1)] \<and>
   (\<exists>s'. newEvent LevelError ''again'' (Some 0) demoReleased = (Some 0, s') \<and>
      events (heap s') 0 = \<lparr>c_E = Some 0, closed = False, id_E = ''xx'',
         createdAt = 3, emittedAt = 0, level_E = LevelError, message = ''again'', topic = [],
         parentID = [], fields_E = Some 3\<rparr> \<and>
      maps (heap s') 3 = [])"
proof -
  have lv: "\<not> LevelError < level_C (clients demoReleased 0)"
    by (simp add: demoReleased_eq demoHeld_eq demo_eq Level_defs)
  have i: "inj (nanoidTape (heap demoReleased))"
    using demo_tape_inj by (simp add: demoReleased_eq demoHeld_eq demo_eq heap0_def)
  have f: "fst (eventPool_Get (heap demoReleased)) = 0"
    "nanoidTape (heap demoReleased) (nanoidCalls (heap demoReleased)) = ''xx''"
    "clock (heap demoReleased) = 2" "nextMap (heap demoReleased) = 3"
    "events (heap demoReleased) 0 = \<lparr>c_E = Some 0, closed = True, id_E = ''x'',
         createdAt = 1, emittedAt = 2, level_E = LevelInfo, message = ''parent'', topic = ''db'',
         parentID = [], fields_E = Some 1\<rparr>"
    "maps (heap demoReleased) 1 = [(''a'', AnyInt 1)]"
    by (simp_all add: demoReleased_eq demoHeld_eq demo_eq heap0_def eventPool_Get_def Let_def
        eval_nat_numeral)
  from newEvent_resets [OF lv, of "''again''"] lv i f show ?thesis
    by (auto simp add: eval_nat_numeral)
qed

subsection \<open>C6: the by-level observer\<close>

text \<open>
  C6: for every threshold \<open>T\<close>, the condition of the observer that \<open>LevelObserver\<close> builds is
  true for an event exactly when the event's level is at or below \<open>T\<close>, and the dispatch
  loop calls its handler exactly for such events. With the threshold Warn the condition
  holds for Trace, Debug, Info and Warn events and fails for Error, Fatal and Panic events.
\<close>

theorem LevelObserver_at_or_below:
  "(\<exists>cnd. cond (LevelObserver T hdl) = Some cnd \<and>
           (\<forall>e h. cnd e h = (level_E (events h e) \<le> T))) \<and>
   (HandlerCall i \<in> set (new_calls s (final (dispatch i [Some (LevelObserver T (Some f))] e s)))) =
     (level_E (events (heap s) e) \<le> T)"
  by (cases "f e (heap s)") (simp_all add: LevelObserver_def new_calls_def)

theorem LevelObserver_at_or_below_witness:
  "\<exists>cnd. cond (LevelObserver LevelWarn None :: string list Observer) = Some cnd \<and>
     cnd 0 (snd (Level (Some 0) LevelTrace heap0)) \<and>
     cnd 0 (snd (Level (Some 0) LevelDebug heap0)) \<and>
     cnd 0 (snd (Level (Some 0) LevelInfo heap0)) \<and>
     cnd 0 (snd (Level (Some 0) LevelWarn heap0)) \<and>
     \<not> cnd 0 (snd (Level (Some 0) LevelError heap0)) \<and>
     \<not> cnd 0 (snd (Level (Some 0) LevelFatal heap0)) \<and>
     \<not> cnd 0 (snd (Level (Some 0) LevelPanic heap0))"
  using LevelObserver_at_or_below [where T = LevelWarn and hdl = None and i = 0
      and f = "remember []" and e = 0 and s = state0]
  by (auto simp add: Level_def upd_event_def Level_defs)

subsection \<open>C7: child events carry the parent's id\<close>

text \<open>
  C7 as stated: for every parent \<open>P\<close> with a non-nil client and every accepted level, the
  child's \<open>parentID\<close> is \<open>P\<close>'s id. \<open>newChildEvent\<close> reads \<open>e.id\<close> after \<open>newEvent\<close> has
  returned, so it fails for a parent that was released to the pool and is handed out again
  as the child: after \<open>Emit()\<close> without hold, the child of the parent with id \<open>x\<close> is the
  parent's own instance, and its \<open>parentID\<close> is its own new id \<open>xx\<close>.
\<close>

theorem newChildEvent_released_parent_counterexample:
  "c_E (events (heap demoReleased) 0) = Some 0 \<and>
   \<not> LevelWarn < level_C (clients demoReleased 0) \<and>
   id_E (events (heap demoReleased) 0) = ''x'' \<and>
   fst (newChildEvent LevelWarn ''child'' (Some 0) demoReleased) = Some 0 \<and>
   parentID (events (heap (snd (newChildEvent LevelWarn ''child'' (Some 0) demoReleased))) 0) = ''xx''"
  by (simp add: demoReleased_eq demoHeld_eq demo_eq newChildEvent_def newEvent_def Level_defs
      eventPool_Get_def Let_def heap0_def upd_event_def gonanoid_Must_def time_Now_def
      make_Fields_def ParentID_def eval_nat_numeral)

text \<open>
  C7, amended: for every parent \<open>P\<close> that has not been released to the pool (it is
  allocated and not idle) with a non-nil owning client, and every level accepted by that
  client, the child is a non-nil event whose \<open>parentID\<close> is the id \<open>P\<close> had at the call and
  whose owning client is \<open>P\<close>'s client; when \<open>P\<close> is nil, \<open>P\<close>'s client is nil, or the level
  is below the client's level, child creation returns nil and changes nothing.
\<close>

theorem newChildEvent_live_parent:
  assumes "p < nextEvent (heap s)" and "p \<notin> set (eventPool (heap s))"
  shows "(\<forall>ca. c_E (events (heap s) p) = Some ca \<and> \<not> lv < level_C (clients s ca) \<longrightarrow>
       (\<exists>e s'. newChildEvent lv msg (Some p) s = (Some e, s') \<and>
          parentID (events (heap s') e) = id_E (events (heap s) p) \<and>
          c_E (events (heap s') e) = c_E (events (heap s) p) \<and>
          level_E (events (heap s') e) = lv \<and> message (events (heap s') e) = msg)) \<and>
     (c_E (events (heap s) p) = None \<longrightarrow> newChildEvent lv msg (Some p) s = (None, s)) \<and>
     (\<forall>ca. c_E (events (heap s) p) = Some ca \<and> lv < level_C (clients s ca) \<longrightarrow>
        newChildEvent lv msg (Some p) s = (None, s)) \<and>
     newChildEvent lv msg None s = (None, s)"
proof -
  have accepted: "\<exists>e s'. newChildEvent lv msg (Some p) s = (Some e, s') \<and>
          parentID (events (heap s') e) = id_E (events (heap s) p) \<and>
          c_E (events (heap s') e) = c_E (events (heap s) p) \<and>
          level_E (events (heap s') e) = lv \<and> message (events (heap s') e) = msg"
    if ca: "c_E (events (heap s) p) = Some ca" and lv: "\<not> lv < level_C (clients s ca)" for ca
  proof -
    let ?e = "fst (eventPool_Get (heap s))"
    from newEvent_accepted [OF lv, of msg] obtain s1 where
      s1: "newEvent lv msg (Some ca) s = (Some ?e, s1)"
      and ev: "events (heap s1) ?e =
         \<lparr>c_E = Some ca, closed = False, id_E = nanoidTape (heap s) (nanoidCalls (heap s)),
          createdAt = Suc (clock (heap s)), emittedAt = 0, level_E = lv, message = msg,
          topic = [], parentID = [], fields_E = Some (nextMap (heap s))\<rparr>"
      and others: "\<forall>b. b \<noteq> ?e \<longrightarrow> events (heap s1) b = events (heap s) b"
      by blast
    from eventPool_Get_live [OF assms] have "p \<noteq> ?e" by simp
    with others have "events (heap s1) p = events (heap s) p" by simp
    with s1 ev ca lv show ?thesis
      by (simp add: newChildEvent_def ParentID_def upd_event_def)
  qed
  have "c_E (events (heap s) p) = None \<longrightarrow> newChildEvent lv msg (Some p) s = (None, s)"
    by (simp add: newChildEvent_def)
  moreover have "\<forall>ca. c_E (events (heap s) p) = Some ca \<and> lv < level_C (clients s ca) \<longrightarrow>
        newChildEvent lv msg (Some p) s = (None, s)"
    by (simp add: newChildEvent_def)
  ultimately show ?thesis using accepted by (simp add: newChildEvent_nil)
qed

theorem newChildEvent_live_parent_witness:
  "0 < nextEvent (heap demoHeld) \<and> 0 \<notin> set (eventPool (heap demoHeld)) \<and>
   c_E (events (heap demoHeld) 0) = Some 0 \<and> \<not> LevelWarn < level_C (clients demoHeld 0) \<and>
   id_E (events (heap demoHeld) 0) = ''x'' \<and>
   (\<exists>e s'. newChildEvent LevelWarn ''child'' (Some 0) demoHeld = (Some e, s') \<and>
      parentID (events (heap s') e) = ''x'' \<and> c_E (events (heap s') e) = Some 0) \<and>
   newChildEvent LevelDebug ''child'' (Some 0) demoHeld = (None, demoHeld)"
proof -
  have live: "0 < nextEvent (heap demoHeld)" "0 \<notin> set (eventPool (heap demoHeld))"
    by (simp_all add: demoHeld_eq demo_eq heap0_def)
  have facts: "c_E (events (heap demoHeld) 0) = Some 0" "level_C (clients demoHeld 0) = LevelInfo"
    "id_E (events (heap demoHeld) 0) = ''x''"
    by (simp_all add: demoHeld_eq demo_eq heap0_def)
  from newChildEvent_live_parent [OF live, of LevelWarn "''child''"]
    newChildEvent_live_parent [OF live, of LevelDebug "''child''"] live facts
  show ?thesis by (auto simp add: Level_defs)
qed

subsection \<open>C8: attaching the standard logger is idempotent\<close>

text \<open>
  C8: on a client whose observers are all non-nil and hold at most one observer keyed
  \<open>"logger"\<close> (the calls of the API keep it so: only \<open>WithStandardLogger\<close> registers an
  observer with that key), any number \<open>n > 0\<close> of chained \<open>WithStandardLogger\<close> calls
  returns the client, does what one call does, and leaves exactly one observer keyed
  \<open>"logger"\<close>; a further call changes nothing, and when a logger is already present the
  calls change nothing at all.
\<close>

theorem WithStandardLogger_idempotent:
  assumes "None \<notin> set (observers (clients s ca))"
    and "count_loggers (observers (clients s ca)) \<le> 1"
    and "0 < n"
  shows "\<exists>s'. WithStandardLogger_times n (Some ca) s = Returns (Some ca) s' \<and>
     WithStandardLogger (Some ca) s = Returns (Some ca) s' \<and>
     count_loggers (observers (clients s' ca)) = 1 \<and>
     WithStandardLogger (Some ca) s' = Returns (Some ca) s' \<and>
     (0 < count_loggers (observers (clients s ca)) \<longrightarrow> s' = s)"
proof -
  from assms(3) obtain m where n: "n = Suc m" by (cases n) auto
  show ?thesis
  proof (cases "0 < count_loggers (observers (clients s ca))")
    case True
    with assms(2) have "count_loggers (observers (clients s ca)) = 1" by simp
    with WithStandardLogger_times_present [OF assms(1) True, of n]
      WithStandardLogger_present [OF assms(1) True]
    show ?thesis by simp
  next
    case False
    then have zero: "count_loggers (observers (clients s ca)) = 0" by simp
    from WithStandardLogger_absent [OF assms(1) zero] obtain s' where
      s': "WithStandardLogger (Some ca) s = Returns (Some ca) s'"
      and nonil: "None \<notin> set (observers (clients s' ca))"
      and one: "count_loggers (observers (clients s' ca)) = 1"
      by blast
    from one have pos: "0 < count_loggers (observers (clients s' ca))" by simp
    from s' WithStandardLogger_times_present [OF nonil pos, of m]
    have "WithStandardLogger_times n (Some ca) s = Returns (Some ca) s'"
      by (simp add: n)
    with s' one WithStandardLogger_present [OF nonil pos] False show ?thesis by simp
  qed
qed

theorem WithStandardLogger_idempotent_witness:
  "None \<notin> set (observers (clients state1 0)) \<and>
   count_loggers (observers (clients state1 0)) \<le> 1 \<and>
   (\<exists>s'. WithStandardLogger_times 2 (Some 0) state1 = Returns (Some 0) s' \<and>
      observers (clients s' 0) = [Some loggerObserver] \<and>
      count_loggers (observers (clients s' 0)) = 1)"
proof -
  have h: "None \<notin> set (observers (clients state1 0))"
    "count_loggers (observers (clients state1 0)) \<le> 1" "0 < (2::nat)"
    by (simp_all add: state1_client count_loggers_def)
  have one: "WithStandardLogger (Some 0) state1 =
      Returns (Some 0) (snd (WithObserver (Some 0) [Some loggerObserver] state1))"
    by (simp add: WithStandardLogger_def state1_client)
  from WithStandardLogger_idempotent [OF h] one h show ?thesis
    by (auto simp add: WithObserver_def upd_client_def state1_client)
qed

subsection \<open>C9: merging fields\<close>

text \<open>
  C9: for an event whose \<open>fields\<close> is a valid map and a field map \<open>F\<close>, \<open>Fields(F)\<close> returns
  the event and makes its \<open>fields\<close> a map that, read as a function from keys to values, is
  the old map overridden by \<open>F\<close>: keys of \<open>F\<close> take \<open>F\<close>'s value, all other keys keep theirs.
  The result is again a valid map; on a nil event the call returns nil and changes nothing.
  Fields \<open>{a: 1}\<close> merged with \<open>{a: 2, b: 3}\<close> give \<open>{a: 2, b: 3}\<close>.
\<close>

theorem Fields_merge:
  assumes "valid_fields h a" and "distinct (map fst fs)"
  shows "(\<exists>d h'. Fields (Some a) fs h = (Some a, h') \<and> fields_E (events h' a) = Some d \<and>
       map_of (maps h' d) = map_of (entries h (fields_E (events h a))) ++ map_of fs \<and>
       valid_fields h' a) \<and>
     Fields None fs h = (None, h)"
proof -
  let ?old = "entries h (fields_E (events h a))"
  let ?d = "nextMap h"
  have old: "entries (snd (make_Fields h)) (fields_E (events (snd (make_Fields h)) a)) = ?old"
    using assms(1)
    by (auto simp add: make_Fields_def entries_def valid_fields_def split: option.splits)
  have dold: "distinct (map fst ?old)"
    using assms(1) by (auto simp add: entries_def valid_fields_def split: option.splits)
  let ?new = "fold (\<lambda>(k, v). AList.update k v) fs (fold (\<lambda>(k, v). AList.update k v) ?old [])"
  have res: "Fields (Some a) fs h =
      (Some a, upd_event a (\<lambda>ev. ev\<lparr>fields_E := Some ?d\<rparr>)
         (fold (\<lambda>(k, v). map_assign ?d k v) fs
            (fold (\<lambda>(k, v). map_assign ?d k v) ?old (snd (make_Fields h)))))"
    using old by (simp add: Fields_def case_prod_unfold Let_def) (simp add: make_Fields_def)
  have mp: "maps (snd (Fields (Some a) fs h)) ?d = ?new"
    by (simp add: res upd_event_def fold_map_assign) (simp add: make_Fields_def)
  have nm: "nextMap (snd (Fields (Some a) fs h)) = Suc ?d"
    by (simp add: res upd_event_def fold_map_assign) (simp add: make_Fields_def)
  have fe: "fields_E (events (snd (Fields (Some a) fs h)) a) = Some ?d"
    by (simp add: res upd_event_def)
  have "map_of ?new = map_of ?old ++ map_of fs"
    by (simp add: map_of_fold_update [OF assms(2)] map_of_fold_update [OF dold])
  moreover have "distinct (map fst ?new)"
    by (intro distinct_fold_update) simp
  ultimately have "fields_E (events (snd (Fields (Some a) fs h)) a) = Some ?d \<and>
       map_of (maps (snd (Fields (Some a) fs h)) ?d) = map_of ?old ++ map_of fs \<and>
       valid_fields (snd (Fields (Some a) fs h)) a"
    using mp nm fe by (simp add: valid_fields_def)
  moreover have "fst (Fields (Some a) fs h) = Some a" by (simp add: res)
  moreover have "Fields None fs h = (None, h)" by (simp add: Fields_def)
  ultimately show ?thesis by (metis prod.collapse)
qed

theorem Fields_merge_witness:
  "valid_fields (heap demoParent) 0 \<and>
   distinct (map fst [(''a'', AnyInt 2), (''b'', AnyInt 3)]) \<and>
   entries (heap demoParent) (fields_E (events (heap demoParent) 0)) = [(''a'', AnyInt 1)] \<and>
   (\<exists>d h'. Fields (Some 0) [(''a'', AnyInt 2), (''b'', AnyInt 3)] (heap demoParent) = (Some 0, h') \<and>
      fields_E (events h' 0) = Some d \<and>
      map_of (maps h' d) = map_of [(''a'', AnyInt 2), (''b'', AnyInt 3)])"
proof -
  have v: "valid_fields (heap demoParent) 0"
    by (simp add: demoParent_eq demo_eq heap0_def valid_fields_def)
  have d: "distinct (map fst [(''a'', AnyInt 2), (''b'', AnyInt 3)])" by simp
  have old: "entries (heap demoParent) (fields_E (events (heap demoParent) 0)) = [(''a'', AnyInt 1)]"
    by (simp add: demoParent_eq demo_eq heap0_def entries_def)
  have m: "map_of [(''a'', AnyInt 1)] ++ map_of [(''a'', AnyInt 2), (''b'', AnyInt 3)] =
           map_of [(''a'', AnyInt 2), (''b'', AnyInt 3)]"
    by (auto simp add: fun_eq_iff map_add_def)
  from Fields_merge [OF v d] v d old m show ?thesis by auto
qed

subsection \<open>C10: the standard logger writes into the event's own map\<close>

text \<open>
  C10: run the handler of the standard logger on an event whose \<open>fields\<close> is a valid map.
  When the map is non-empty and \<open>parentID\<close> is set, the handler passes the event's own map
  on, not a copy, and stores the key \<open>"parentID"\<close> in it: afterwards the event still refers
  to the same map, and that map is the old one with \<open>"parentID"\<close> bound to the event's
  \<open>parentID\<close>. When the map is empty (or nil), the event and the entries of its map are as
  before.
\<close>

theorem standardLogger_aliases_fields:
  assumes "valid_fields h e"
  shows "handler loggerObserver = Some standardLoggerHandler \<and>
     (\<forall>m. fields_E (events h e) = Some m \<and> maps h m \<noteq> [] \<and> parentID (events h e) \<noteq> [] \<longrightarrow>
        fields_E (events (final (standardLoggerHandler e h)) e) = Some m \<and>
        map_of (maps (final (standardLoggerHandler e h)) m) =
          (map_of (maps h m))(''parentID'' \<mapsto> AnyString (parentID (events h e)))) \<and>
     (len_Fields h (fields_E (events h e)) = 0 \<longrightarrow>
        events (final (standardLoggerHandler e h)) e = events h e \<and>
        entries (final (standardLoggerHandler e h)) (fields_E (events h e)) =
          entries h (fields_E (events h e)))"
proof -
  have 1: "handler loggerObserver = Some standardLoggerHandler"
    by (simp add: loggerObserver_def)
  have 2: "fields_E (events (final (standardLoggerHandler e h)) e) = Some m \<and>
        map_of (maps (final (standardLoggerHandler e h)) m) =
          (map_of (maps h m))(''parentID'' \<mapsto> AnyString (parentID (events h e)))"
    if "fields_E (events h e) = Some m" "maps h m \<noteq> []" "parentID (events h e) \<noteq> []" for m
  proof -
    from assms that have "m \<noteq> nextMap h" by (simp add: valid_fields_def)
    with that show ?thesis
      by (simp add: standardLoggerHandler_final update_conv' Let_def)
  qed
  have 3: "events (final (standardLoggerHandler e h)) e = events h e \<and>
        entries (final (standardLoggerHandler e h)) (fields_E (events h e)) =
          entries h (fields_E (events h e))"
    if "len_Fields h (fields_E (events h e)) = 0"
  proof (cases "fields_E (events h e)")
    case None
    then show ?thesis by (simp add: standardLoggerHandler_final entries_def Let_def)
  next
    case (Some m)
    with assms have ne: "m \<noteq> nextMap h" by (simp add: valid_fields_def)
    from that Some have "maps h m = []" by (simp add: len_Fields_def)
    with Some ne show ?thesis by (simp add: standardLoggerHandler_final entries_def Let_def)
  qed
  from 1 2 3 show ?thesis by blast
qed

theorem standardLogger_aliases_fields_witness:
  "valid_fields demoChildFields 1 \<and> fields_E (events demoChildFields 1) = Some 4 \<and>
   map_of (maps demoChildFields 4) ''parentID'' = None \<and>
   map_of (maps (final (standardLoggerHandler 1 demoChildFields)) 4) =
     [''k'' \<mapsto> AnyBool True, ''parentID'' \<mapsto> AnyString ''x''] \<and>
   valid_fields (heap demoChild) 1 \<and>
   len_Fields (heap demoChild) (fields_E (events (heap demoChild) 1)) = 0 \<and>
   entries (final (standardLoggerHandler 1 (heap demoChild)))
     (fields_E (events (heap demoChild) 1)) = []"
proof -
  have v: "valid_fields demoChildFields 1" "valid_fields (heap demoChild) 1"
    by (simp_all add: valid_fields_def demoChildFields_facts demoChild_facts)
  have a: "fields_E (events demoChildFields 1) = Some 4 \<and> maps demoChildFields 4 \<noteq> [] \<and>
      parentID (events demoChildFields 1) \<noteq> []"
    by (simp add: demoChildFields_facts)
  have b: "len_Fields (heap demoChild) (fields_E (events (heap demoChild) 1)) = 0"
    by (simp add: demoChild_facts len_Fields_def)
  from standardLogger_aliases_fields [OF v(1)] a
  have "map_of (maps (final (standardLoggerHandler 1 demoChildFields)) 4) =
      (map_of (maps demoChildFields 4))
        (''parentID'' \<mapsto> AnyString (parentID (events demoChildFields 1)))"
    by blast
  then have c: "map_of (maps (final (standardLoggerHandler 1 demoChildFields)) 4) =
     [''k'' \<mapsto> AnyBool True, ''parentID'' \<mapsto> AnyString ''x'']"
    by (simp add: demoChildFields_facts)
  from standardLogger_aliases_fields [OF v(2)] b
  have "entries (final (standardLoggerHandler 1 (heap demoChild)))
          (fields_E (events (heap demoChild) 1)) =
        entries (heap demoChild) (fields_E (events (heap demoChild) 1))"
    by blast
  then have d: "entries (final (standardLoggerHandler 1 (heap demoChild)))
      (fields_E (events (heap demoChild) 1)) = []"
    by (simp add: demoChild_facts entries_def)
  have e: "map_of (maps demoChildFields 4) ''parentID'' = None"
    by (simp add: demoChildFields_facts)
  from v a b c d e show ?thesis by blast
qed

end
